theory Spec2Isabelle
  imports Complex_Main "HOL-Library.AList"
begin

section \<open>Python values as the notebooks handle them\<close>

text \<open>
  The notebooks are dynamically typed client code: every response of the remote service
  is a JSON-like Python value. Scalars the code never looks inside (numbers, booleans,
  timestamps) are atoms. A dictionary is an association list in insertion order, as
  Python keeps it; its keys are strings.
\<close>

datatype 'a pyval =
    Atom 'a
  | Str string
  | Lst "'a pyval list"
  | Dict "(string \<times> 'a pyval) list"
  | NoneV

datatype error =
    KeyError string
  | TypeError
  | FileNotFoundError string
  | ClientError string

type_synonym 'a pydict = "(string \<times> 'a pyval) list"

text \<open>\<open>x[k]\<close> with a string key: only a dictionary accepts it.\<close>

fun getitem :: "'a pyval \<Rightarrow> string \<Rightarrow> error + 'a pyval" where
  "getitem (Dict d) k = (case map_of d k of None \<Rightarrow> Inl (KeyError k) | Some v \<Rightarrow> Inr v)"
| "getitem _ k = Inl TypeError"

text \<open>\<open>**v\<close> inside a dictionary display: \<open>v\<close> must be a mapping.\<close>

fun unpack :: "'a pyval \<Rightarrow> error + 'a pydict" where
  "unpack (Dict d) = Inr d"
| "unpack _ = Inl TypeError"

text \<open>\<open>for x in v\<close>: lists give their elements, dictionaries their keys, strings their
  characters; the other values are not iterable.\<close>

fun iterate :: "'a pyval \<Rightarrow> error + 'a pyval list" where
  "iterate (Lst xs) = Inr xs"
| "iterate (Dict d) = Inr (map (\<lambda>p. Str (fst p)) d)"
| "iterate (Str s) = Inr (map (\<lambda>c. Str [c]) s)"
| "iterate _ = Inl TypeError"

text \<open>Storing the items of a mapping into a dictionary, one after the other: a key
  already present keeps its position and takes the new value, a new key goes last.\<close>

definition dict_update :: "'a pydict \<Rightarrow> 'a pydict \<Rightarrow> 'a pydict" where
  "dict_update items d = fold (\<lambda>p. AList.update (fst p) (snd p)) items d"

text \<open>A list comprehension whose element expression may raise: the first exception
  ends it.\<close>

fun comprehension :: "('a \<Rightarrow> error + 'b) \<Rightarrow> 'a list \<Rightarrow> error + 'b list" where
  "comprehension f [] = Inr []"
| "comprehension f (x # xs) =
     (case f x of
        Inl e \<Rightarrow> Inl e
      | Inr y \<Rightarrow> (case comprehension f xs of Inl e \<Rightarrow> Inl e | Inr ys \<Rightarrow> Inr (y # ys)))"

section \<open>The result aggregator\<close>

text \<open>
  Both recommendation cells of the notebook read
  \<^verbatim>\<open>
  data = [
      {**x["EndpointConfiguration"], **x["ModelConfiguration"], **x["Metrics"]}
      for x in inference_recommender_job["InferenceRecommendations"]
  ]
  df = pd.DataFrame(data)
  df.drop("VariantName", inplace=True, axis=1)
  pd.set_option("max_colwidth", 400)
  df.head()
  \<close>
  The dictionary display evaluates left to right: each subscript, then the unpacking of
  its value into the dictionary under construction.
\<close>

definition flatten :: "'a pyval \<Rightarrow> error + 'a pydict" where
  "flatten x =
     (case getitem x ''EndpointConfiguration'' of Inl e \<Rightarrow> Inl e | Inr ec \<Rightarrow>
      case unpack ec of Inl e \<Rightarrow> Inl e | Inr eci \<Rightarrow>
      case getitem x ''ModelConfiguration'' of Inl e \<Rightarrow> Inl e | Inr mc \<Rightarrow>
      case unpack mc of Inl e \<Rightarrow> Inl e | Inr mci \<Rightarrow>
      case getitem x ''Metrics'' of Inl e \<Rightarrow> Inl e | Inr me \<Rightarrow>
      case unpack me of Inl e \<Rightarrow> Inl e | Inr mei \<Rightarrow>
      Inr (dict_update mei (dict_update mci (dict_update eci []))))"

text \<open>
  A pandas data frame, column by column: the row index and, for each column label, the
  cells of that column from the first row to the last. A cell is \<open>None\<close> where pandas
  fills in NaN because the row's dictionary has no such key.
\<close>

record 'a dataframe =
  index :: "nat list"
  columns :: "(string \<times> 'a pyval option list) list"

text \<open>The column labels of \<open>pd.DataFrame(data)\<close> for a list of dictionaries: every key,
  in the order of its first appearance.\<close>

fun first_seen :: "string list \<Rightarrow> string list \<Rightarrow> string list" where
  "first_seen acc [] = acc"
| "first_seen acc (k # ks) = first_seen (if k \<in> set acc then acc else acc @ [k]) ks"

definition DataFrame :: "'a pydict list \<Rightarrow> 'a dataframe" where
  "DataFrame data =
     \<lparr>index = [0..<length data],
      columns = map (\<lambda>c. (c, map (\<lambda>row. map_of row c) data))
                    (first_seen [] (concat (map (map fst) data)))\<rparr>"

text \<open>\<open>df.drop(label, axis=1)\<close> with the default \<open>errors='raise'\<close>: a label that is not a
  column raises KeyError.\<close>

definition drop_column :: "string \<Rightarrow> 'a dataframe \<Rightarrow> error + 'a dataframe" where
  "drop_column label df =
     (if label \<in> set (map fst (columns df))
      then Inr (df\<lparr>columns := filter (\<lambda>p. fst p \<noteq> label) (columns df)\<rparr>)
      else Inl (KeyError label))"

text \<open>\<open>df.head()\<close>: the first five rows, for display only; \<open>df\<close> itself is unchanged.\<close>

definition head :: "'a dataframe \<Rightarrow> 'a dataframe" where
  "head df = \<lparr>index = take 5 (index df),
              columns = map (\<lambda>p. (fst p, take 5 (snd p))) (columns df)\<rparr>"

text \<open>The cell from the recommendation list to the table \<open>df\<close>.\<close>

definition aggregate_records :: "'a pyval list \<Rightarrow> error + 'a dataframe" where
  "aggregate_records xs =
     (case comprehension flatten xs of
        Inl e \<Rightarrow> Inl e
      | Inr data \<Rightarrow> drop_column ''VariantName'' (DataFrame data))"

definition aggregation_cell :: "'a pyval \<Rightarrow> error + 'a dataframe" where
  "aggregation_cell inference_recommender_job =
     (case getitem inference_recommender_job ''InferenceRecommendations'' of
        Inl e \<Rightarrow> Inl e
      | Inr recs \<Rightarrow>
          (case iterate recs of Inl e \<Rightarrow> Inl e | Inr xs \<Rightarrow> aggregate_records xs))"

text \<open>Row \<open>i\<close> of a table, as the cells under each column label.\<close>

definition row :: "'a dataframe \<Rightarrow> nat \<Rightarrow> (string \<times> 'a pyval option) list" where
  "row df i = map (\<lambda>p. (fst p, snd p ! i)) (columns df)"

text \<open>The three sub-records of a recommendation record, when it has them.\<close>

definition sub_records :: "'a pyval \<Rightarrow> ('a pydict \<times> 'a pydict \<times> 'a pydict) option" where
  "sub_records x =
     (case (getitem x ''EndpointConfiguration'', getitem x ''ModelConfiguration'',
            getitem x ''Metrics'') of
        (Inr (Dict ec), Inr (Dict mc), Inr (Dict me)) \<Rightarrow> Some (ec, mc, me)
      | _ \<Rightarrow> None)"

definition record_keys :: "'a pyval \<Rightarrow> string set" where
  "record_keys x =
     (case sub_records x of
        Some (ec, mc, me) \<Rightarrow> set (map fst ec) \<union> set (map fst mc) \<union> set (map fst me)
      | None \<Rightarrow> {})"

definition disjoint_keys :: "'a pyval \<Rightarrow> bool" where
  "disjoint_keys x =
     (case sub_records x of
        Some (ec, mc, me) \<Rightarrow>
          set (map fst ec) \<inter> set (map fst mc) = {} \<and>
          set (map fst ec) \<inter> set (map fst me) = {} \<and>
          set (map fst mc) \<inter> set (map fst me) = {}
      | None \<Rightarrow> False)"

text \<open>
  Example responses. Two recommendations that differ in \<open>OMP_NUM_THREADS\<close>, a record
  with no variant name, and a record whose three sub-records share keys.
\<close>

definition recommendation :: "string \<Rightarrow> string \<Rightarrow> int \<Rightarrow> int pyval" where
  "recommendation variant threads latency =
     Dict [(''EndpointConfiguration'',
              Dict [(''VariantName'', Str variant), (''InstanceType'', Str ''ml.c5.xlarge'')]),
           (''ModelConfiguration'', Dict [(''OMP_NUM_THREADS'', Str threads)]),
           (''Metrics'', Dict [(''ModelLatency'', Atom latency), (''CostPerHour'', Atom 1)])]"

definition example_recommendations :: "int pyval list" where
  "example_recommendations = [recommendation ''v1'' ''2'' 40, recommendation ''v2'' ''4'' 55]"

definition unlabelled_recommendation :: "int pyval" where
  "unlabelled_recommendation =
     Dict [(''EndpointConfiguration'', Dict [(''InstanceType'', Str ''ml.c5.xlarge'')]),
           (''ModelConfiguration'', Dict [(''OMP_NUM_THREADS'', Str ''2'')]),
           (''Metrics'', Dict [(''ModelLatency'', Atom 40)])]"

definition overlapping_recommendation :: "int pyval" where
  "overlapping_recommendation =
     Dict [(''EndpointConfiguration'',
              Dict [(''InstanceType'', Str ''from-endpoint''), (''Note'', Str ''from-endpoint''),
                    (''VariantName'', Str ''v1'')]),
           (''ModelConfiguration'',
              Dict [(''InstanceType'', Str ''from-model''), (''Note'', Str ''from-model'')]),
           (''Metrics'', Dict [(''InstanceType'', Str ''from-metrics'')])]"

definition example_table :: "int dataframe" where
  "example_table =
     \<lparr>index = [0, 1],
      columns = [(''InstanceType'', [Some (Str ''ml.c5.xlarge''), Some (Str ''ml.c5.xlarge'')]),
                 (''OMP_NUM_THREADS'', [Some (Str ''2''), Some (Str ''4'')]),
                 (''ModelLatency'', [Some (Atom 40), Some (Atom 55)]),
                 (''CostPerHour'', [Some (Atom 1), Some (Atom 1)])]\<rparr>"

section \<open>Submitting a job and polling for its end\<close>

text \<open>
  The world the notebook acts on: how many status queries it has sent, and what it has
  done so far, in order. The remote service is a function from the job name and the
  number of the query to its response, so that a response is never known before the
  query that fetches it.
\<close>

datatype 'a event =
    Describe string
  | Print string
  | PrintFormat string "'a pyval"
  | Sleep nat

record 'a world =
  calls :: nat
  trace :: "'a event list"

type_synonym 'a service = "string \<Rightarrow> nat \<Rightarrow> error + 'a pyval"

definition terminal :: "'a pyval list" where
  "terminal = [Str ''COMPLETED'', Str ''STOPPED'', Str ''FAILED'']"

text \<open>
  \<^verbatim>\<open>
  finished = False
  while not finished:
      inference_recommender_job = sm_client.describe_inference_recommendations_job(
          JobName=default_job_name
      )
      if inference_recommender_job["Status"] in ["COMPLETED", "STOPPED", "FAILED"]:
          finished = True
      else:
          print("In progress")
          time.sleep(300)
  \<close>
  The loop has no bound, so the model is a partial function: \<open>None\<close> is a loop that
  never ends. An exception of the client call or of the subscript ends it.
\<close>

partial_function (option) poll ::
  "'a service \<Rightarrow> string \<Rightarrow> 'a world \<Rightarrow> (error + 'a pyval \<times> 'a world) option" where
  "poll srv job_name w =
     (case srv job_name (calls w) of
        Inl e \<Rightarrow> Some (Inl e)
      | Inr job \<Rightarrow>
          (case getitem job ''Status'' of
             Inl e \<Rightarrow> Some (Inl e)
           | Inr st \<Rightarrow>
               if st \<in> set terminal
               then Some (Inr (job, w\<lparr>calls := Suc (calls w),
                                      trace := trace w @ [Describe job_name]\<rparr>))
               else poll srv job_name
                      (w\<lparr>calls := Suc (calls w),
                         trace := trace w @
                           [Describe job_name, Print ''In progress'', Sleep 300]\<rparr>)))"

text \<open>
  The rest of the polling cell of the default job:
  \<^verbatim>\<open>
  if inference_recommender_job["Status"] == "FAILED":
      print("Inference recommender job failed ")
      print("Failed Reason: {}".format(inference_recommender_job["FailureReason"]))
  else:
      print("Inference recommender job completed")
  \<close>
\<close>



text \<open>A response that keeps the loop going, and a response that ends it.\<close>

definition in_progress :: "error + 'a pyval \<Rightarrow> bool" where
  "in_progress r =
     (case r of
        Inl e \<Rightarrow> False
      | Inr job \<Rightarrow>
          (case getitem job ''Status'' of Inl e \<Rightarrow> False | Inr st \<Rightarrow> st \<notin> set terminal))"

definition has_terminal_status :: "'a pyval \<Rightarrow> bool" where
  "has_terminal_status job =
     (case getitem job ''Status'' of Inl e \<Rightarrow> False | Inr st \<Rightarrow> st \<in> set terminal)"

text \<open>A response at which the loop raises: the client call fails, or the subscript
  \<open>["Status"]\<close> does.\<close>

definition raises :: "error + 'a pyval \<Rightarrow> error \<Rightarrow> bool" where
  "raises r e =
     (case r of
        Inl e' \<Rightarrow> e' = e
      | Inr job \<Rightarrow> getitem job ''Status'' = Inl e)"

fun sleeps :: "'a event list \<Rightarrow> nat list" where
  "sleeps [] = []"
| "sleeps (Sleep d # es) = d # sleeps es"
| "sleeps (_ # es) = sleeps es"

fun queries :: "'a event list \<Rightarrow> string list" where
  "queries [] = []"
| "queries (Describe n # es) = n # queries es"
| "queries (_ # es) = queries es"

text \<open>The world after \<open>k\<close> rounds of the loop that did not end it.\<close>

definition after_polls :: "string \<Rightarrow> nat \<Rightarrow> 'a world \<Rightarrow> 'a world" where
  "after_polls job_name k w =
     w\<lparr>calls := calls w + k,
       trace := trace w @
         concat (replicate k [Describe job_name, Print ''In progress'', Sleep 300])\<rparr>"

text \<open>
  Example services: a job that is in progress twice and then completed with the two
  example recommendations; a job that has failed, with an empty reason, whose record
  still lists a recommendation; a failed job with a reason and no recommendation list; a
  stopped job with an empty recommendation list; and a job that never leaves
  \<open>IN_PROGRESS\<close>.
\<close>

definition completed_job :: "int pyval" where
  "completed_job =
     Dict [(''Status'', Str ''COMPLETED''),
           (''InferenceRecommendations'', Lst example_recommendations)]"

definition completing_service :: "int service" where
  "completing_service job_name c =
     (if c < 2 then Inr (Dict [(''Status'', Str ''IN_PROGRESS'')]) else Inr completed_job)"





definition stopped_job :: "int pyval" where
  "stopped_job = Dict [(''Status'', Str ''STOPPED''), (''InferenceRecommendations'', Lst [])]"

definition stuck_service :: "int service" where
  "stuck_service job_name c = Inr (Dict [(''Status'', Str ''IN_PROGRESS'')])"

definition fresh_world :: "int world" where
  "fresh_world = \<lparr>calls = 0, trace = []\<rparr>"

section \<open>Decimal text of numbers\<close>

definition digit_char :: "nat \<Rightarrow> char" where
  "digit_char n = ''0123456789'' ! (n mod 10)"

fun str_nat :: "nat \<Rightarrow> string" where
  "str_nat n = (if n < 10 then [digit_char n] else str_nat (n div 10) @ [digit_char (n mod 10)])"

definition str_int :: "int \<Rightarrow> string" where
  "str_int i = (if i < 0 then ''-'' @ str_nat (nat (- i)) else str_nat (nat i))"

section \<open>Job names\<close>

text \<open>Python's \<open>round\<close> of a float to an integer: to the nearest, a tie to the even one.\<close>

definition py_round :: "real \<Rightarrow> int" where
  "py_round t =
     (let f = \<lfloor>t\<rfloor>; d = t - of_int f
      in if d < 1 / 2 then f else if 1 / 2 < d then f + 1 else if even f then f else f + 1)"

text \<open>\<^verbatim>\<open>default_job_name = model_name + "-instance-" + str(round(time.time()))\<close>\<close>

definition default_job_name :: "string \<Rightarrow> real \<Rightarrow> string" where
  "default_job_name model_name now = model_name @ ''-instance-'' @ str_int (py_round now)"

text \<open>\<^verbatim>\<open>instance_type.replace(".", "-")\<close>\<close>

definition replace_dots :: "string \<Rightarrow> string" where
  "replace_dots s = map (\<lambda>c. if c = CHR ''.'' then CHR ''-'' else c) s"

text \<open>\<^verbatim>\<open>advanced_job_name = (
      model_name + "-" + instance_type.replace(".", "-") + "-load-test-" + str(round(time.time()))
  )\<close>\<close>

definition advanced_job_name :: "string \<Rightarrow> string \<Rightarrow> real \<Rightarrow> string" where
  "advanced_job_name model_name instance_type now =
     model_name @ ''-'' @ replace_dots instance_type @ ''-load-test-'' @ str_int (py_round now)"

text \<open>
  \<^verbatim>\<open>TrainingJobName="sklearn-boto3-" + datetime.datetime.now().strftime("%Y-%m-%d-%H-%M-%S")\<close>
  A \<open>datetime\<close> has its fields; \<open>%m\<close>, \<open>%d\<close>, \<open>%H\<close>, \<open>%M\<close> and \<open>%S\<close> print two digits,
  \<open>%Y\<close> the year in decimal.
\<close>

record datetime =
  year :: nat
  month :: nat
  day :: nat
  hour :: nat
  minute :: nat
  second :: nat
  microsecond :: nat

definition valid_datetime :: "datetime \<Rightarrow> bool" where
  "valid_datetime t \<longleftrightarrow>
     1 \<le> year t \<and> year t \<le> 9999 \<and> 1 \<le> month t \<and> month t \<le> 12 \<and>
     1 \<le> day t \<and> day t \<le> 31 \<and> hour t < 24 \<and> minute t < 60 \<and> second t < 60 \<and>
     microsecond t < 1000000"

definition two_digits :: "nat \<Rightarrow> string" where
  "two_digits n = [digit_char (n div 10), digit_char n]"

definition strftime :: "datetime \<Rightarrow> string" where
  "strftime t =
     str_nat (year t) @ ''-'' @ two_digits (month t) @ ''-'' @ two_digits (day t) @ ''-'' @
     two_digits (hour t) @ ''-'' @ two_digits (minute t) @ ''-'' @ two_digits (second t)"

definition training_job_name :: "datetime \<Rightarrow> string" where
  "training_job_name now = ''sklearn-boto3-'' @ strftime now"

text \<open>What of a \<open>datetime\<close> the name embeds: everything down to the second.\<close>

definition to_the_second :: "datetime \<Rightarrow> nat \<times> nat \<times> nat \<times> nat \<times> nat \<times> nat" where
  "to_the_second t = (year t, month t, day t, hour t, minute t, second t)"

section \<open>The training script and its objective metric\<close>

text \<open>
  The text \<open>str\<close> gives for a float, by shape: not-a-number, an infinity, fixed notation
  (sign, integer part, digits after the point) or scientific notation (sign, leading
  digit, further digits, exponent). The \<open>bool\<close> is the minus sign.
\<close>

datatype npfloat =
    NaN
  | Infinity bool
  | Fixed bool nat "nat list"
  | Scientific bool nat "nat list" int

definition sign_text :: "bool \<Rightarrow> string" where
  "sign_text negative = (if negative then ''-'' else [])"

fun str_float :: "npfloat \<Rightarrow> string" where
  "str_float NaN = ''nan''"
| "str_float (Infinity s) = sign_text s @ ''inf''"
| "str_float (Fixed s n ds) = sign_text s @ str_nat n @ ''.'' @ map digit_char ds"
| "str_float (Scientific s d ds e) =
     sign_text s @ [digit_char d] @ (if ds = [] then [] else ''.'' @ map digit_char ds) @
     ''e'' @ (if e < 0 then ''-'' else ''+'') @
     (if \<bar>e\<bar> < 10 then ''0'' else []) @ str_nat (nat \<bar>e\<bar>)"

text \<open>
  \<^verbatim>\<open>
  for q in [10, 50, 90]:
      print("AE-at-" + str(q) + "th-percentile: " + str(np.percentile(a=abs_err, q=q)))
  \<close>
  The percentiles of the absolute errors come from numpy; the script only prints them.
\<close>

definition percentile_lines :: "(nat \<Rightarrow> npfloat) \<Rightarrow> string list" where
  "percentile_lines percentile =
     map (\<lambda>q. ''AE-at-'' @ str_nat q @ ''th-percentile: '' @ str_float (percentile q))
         [10, 50, 90]"

text \<open>
  The metric definition \<^verbatim>\<open>{"Name": "median-AE", "Regex": "AE-at-50th-percentile: ([0-9.]+).*$"}\<close>:
  a literal, a group of one or more characters of the class, then \<open>.*$\<close>, which accepts
  what is left when it has no line feed before its end. The search tries each position
  from the left and returns the group. The group is taken greedily; a shorter group
  would leave only more class characters to \<open>.*\<close>, so it cannot match where the
  greedy one does not.
\<close>

definition metric_literal :: string where
  "metric_literal = ''AE-at-50th-percentile: ''"

definition metric_class :: "char \<Rightarrow> bool" where
  "metric_class c \<longleftrightarrow> c \<in> set ''0123456789.''"

definition line_feed :: char where
  "line_feed = CHR 0x0A"

definition dot_star_eol :: "string \<Rightarrow> bool" where
  "dot_star_eol s =
     (let r = dropWhile (\<lambda>c. c \<noteq> line_feed) s in r = [] \<or> r = [line_feed])"

definition match_at :: "string \<Rightarrow> string option" where
  "match_at s =
     (if take (length metric_literal) s = metric_literal
      then (let rest = drop (length metric_literal) s;
                g = takeWhile metric_class rest
            in if g \<noteq> [] \<and> dot_star_eol (dropWhile metric_class rest)
               then Some g else None)
      else None)"

fun regex_search :: "string \<Rightarrow> string option" where
  "regex_search [] = match_at []"
| "regex_search (c # cs) =
     (case match_at (c # cs) of Some g \<Rightarrow> Some g | None \<Rightarrow> regex_search cs)"

text \<open>What the pattern means, without an algorithm: somewhere in the line the literal,
  a non-empty group of class characters, and a rest that \<open>.*$\<close> accepts.\<close>

definition regex_matches :: "string \<Rightarrow> string \<Rightarrow> bool" where
  "regex_matches line g \<longleftrightarrow>
     (\<exists>pre rest. line = pre @ metric_literal @ g @ rest \<and> g \<noteq> [] \<and>
        (\<forall>c\<in>set g. metric_class c) \<and> dot_star_eol rest)"

definition nonnegative_finite :: "npfloat \<Rightarrow> bool" where
  "nonnegative_finite v =
     (case v of Fixed s n ds \<Rightarrow> \<not> s | Scientific s d ds e \<Rightarrow> \<not> s | _ \<Rightarrow> False)"

text \<open>Example percentiles: a run whose absolute errors are numbers, and a run whose test
  targets have a missing value, so that every percentile is not-a-number.\<close>

definition example_percentiles :: "nat \<Rightarrow> npfloat" where
  "example_percentiles q =
     (if q = 10 then Fixed False 0 [1, 2]
      else if q = 50 then Fixed False 0 [3, 5]
      else Fixed False 1 [0, 7])"

definition nan_percentiles :: "nat \<Rightarrow> npfloat" where
  "nan_percentiles q = NaN"

section \<open>Persisting and loading the model\<close>

text \<open>
  The files of the training container or of the serving container: what is stored under
  each path, and whether a file can be created at a path (its directory exists and is
  writable). \<open>joblib.dump\<close> followed by \<open>joblib.load\<close> gives the object back; the
  bytes in between are not modelled.
\<close>

record 'm filesystem =
  files :: "string \<rightharpoonup> 'm"
  can_create :: "string \<Rightarrow> bool"

text \<open>\<open>os.path.join\<close> of two components on POSIX.\<close>

definition os_path_join :: "string \<Rightarrow> string \<Rightarrow> string" where
  "os_path_join a b =
     (if b \<noteq> [] \<and> hd b = CHR ''/'' then b
      else if a = [] \<or> last a = CHR ''/'' then a @ b
      else a @ ''/'' @ b)"

definition joblib_dump :: "'m \<Rightarrow> string \<Rightarrow> 'm filesystem \<Rightarrow> error + 'm filesystem" where
  "joblib_dump obj path fs =
     (if can_create fs path then Inr (fs\<lparr>files := (files fs)(path \<mapsto> obj)\<rparr>)
      else Inl (FileNotFoundError path))"

definition joblib_load :: "string \<Rightarrow> 'm filesystem \<Rightarrow> error + 'm" where
  "joblib_load path fs =
     (case files fs path of None \<Rightarrow> Inl (FileNotFoundError path) | Some obj \<Rightarrow> Inr obj)"

text \<open>
  \<^verbatim>\<open>
  def model_fn(model_dir):
      clf = joblib.load(os.path.join(model_dir, "model.joblib"))
      return clf
  \<close>
\<close>

definition model_fn :: "string \<Rightarrow> 'm filesystem \<Rightarrow> error + 'm" where
  "model_fn model_dir fs = joblib_load (os_path_join model_dir ''model.joblib'') fs"

text \<open>
  \<^verbatim>\<open>
  path = os.path.join(args.model_dir, "model.joblib")
  joblib.dump(model, path)
  \<close>
  \<open>args.model_dir\<close> defaults to the environment variable \<open>SM_MODEL_DIR\<close>, which may be
  unset: joining \<open>None\<close> raises TypeError.
\<close>

definition persist_model :: "'m \<Rightarrow> string option \<Rightarrow> 'm filesystem \<Rightarrow> error + 'm filesystem" where
  "persist_model model model_dir fs =
     (case model_dir of
        None \<Rightarrow> Inl TypeError
      | Some d \<Rightarrow> joblib_dump model (os_path_join d ''model.joblib'') fs)"

text \<open>An example container: no file yet, every path can be created.\<close>

definition empty_container :: "string filesystem" where
  "empty_container = \<lparr>files = Map.empty, can_create = (\<lambda>path. True)\<rparr>"

text \<open>Two moments one second apart.\<close>

definition example_moment :: "nat \<Rightarrow> datetime" where
  "example_moment s =
     \<lparr>year = 2023, month = 7, day = 4, hour = 9, minute = 5, second = s, microsecond = 12\<rparr>"

section \<open>Properties of the result aggregator\<close>

lemma set_first_seen: "set (first_seen acc ks) = set acc \<union> set ks"
  by (induction ks arbitrary: acc) auto

lemma labels_DataFrame:
  "set (map fst (columns (DataFrame data))) = (\<Union>d\<in>set data. fst ` set d)"
  by (simp add: DataFrame_def comp_def set_first_seen)

lemma keys_dict_update:
  "fst ` set (dict_update items d) = fst ` set d \<union> fst ` set items"
  unfolding dict_update_def
  by (induction items arbitrary: d) (auto simp: dom_update)

lemma map_of_dict_update:
  "map_of (dict_update items d) k =
     (case map_of (rev items) k of Some v \<Rightarrow> Some v | None \<Rightarrow> map_of d k)"
  unfolding dict_update_def
  by (induction items arbitrary: d)
     (auto simp: update_conv' map_add_def split: option.splits)

lemma map_of_rev_distinct:
  assumes "distinct (map fst xs)"
  shows "map_of (rev xs) = map_of xs"
proof -
  have "distinct (map fst (rev xs))" using assms by (metis distinct_rev rev_map)
  then show ?thesis using assms map_of_inject_set [of "rev xs" xs] by simp
qed

lemma comprehension_length:
  "comprehension f xs = Inr ys \<Longrightarrow> length ys = length xs"
  by (induction xs arbitrary: ys) (auto split: sum.splits)

lemma comprehension_nth:
  "comprehension f xs = Inr ys \<Longrightarrow> i < length xs \<Longrightarrow> f (xs ! i) = Inr (ys ! i)"
proof (induction xs arbitrary: ys i)
  case Nil
  then show ?case by simp
next
  case (Cons x xs)
  then show ?case by (cases i) (auto split: sum.splits)
qed

lemma comprehension_total:
  "\<forall>x\<in>set xs. \<exists>y. f x = Inr y \<Longrightarrow> \<exists>ys. comprehension f xs = Inr ys"
  by (induction xs) (auto split: sum.splits)

lemma comprehension_source:
  "comprehension f xs = Inr ys \<Longrightarrow> y \<in> set ys \<Longrightarrow> \<exists>x\<in>set xs. f x = Inr y"
  by (induction xs arbitrary: ys) (auto split: sum.splits)

lemma comprehension_image:
  "comprehension f xs = Inr ys \<Longrightarrow> x \<in> set xs \<Longrightarrow> \<exists>y\<in>set ys. f x = Inr y"
  by (induction xs arbitrary: ys) (auto split: sum.splits)

lemma flatten_sub_records:
  "sub_records x = Some (ec, mc, me) \<Longrightarrow>
   flatten x = Inr (dict_update me (dict_update mc (dict_update ec [])))"
  by (auto simp: sub_records_def flatten_def split: sum.splits pyval.splits prod.splits)

lemma flatten_Inr:
  "flatten x = Inr d \<Longrightarrow> \<exists>ec mc me. sub_records x = Some (ec, mc, me)"
  by (auto simp: sub_records_def flatten_def split: sum.splits pyval.splits prod.splits)

lemma flatten_keys:
  assumes "flatten x = Inr d"
  shows "fst ` set d = record_keys x"
proof -
  from assms obtain ec mc me where s: "sub_records x = Some (ec, mc, me)"
    using flatten_Inr by blast
  with assms have "d = dict_update me (dict_update mc (dict_update ec []))"
    by (simp add: flatten_sub_records)
  then show ?thesis by (simp add: keys_dict_update record_keys_def s)
qed

lemma take_five_upt: "take 5 [0..<n] = [0..<min 5 n]"
  by (cases "5 \<le> n") (simp_all add: take_upt min_def)

lemma aggregate_example:
  "aggregate_records example_recommendations = Inr example_table"
  by (simp add: example_recommendations_def recommendation_def aggregate_records_def
        flatten_def dict_update_def DataFrame_def drop_column_def example_table_def)

text \<open>
  C1, as the claim states it, fails: a non-empty list whose records have disjoint keys
  and no \<open>VariantName\<close> key makes the removal of that column raise KeyError.
\<close>

theorem aggregation_without_variant_name:
  "disjoint_keys unlabelled_recommendation \<and>
   aggregate_records [unlabelled_recommendation] = Inl (KeyError ''VariantName'')"
  by (simp add: unlabelled_recommendation_def disjoint_keys_def sub_records_def
        aggregate_records_def flatten_def dict_update_def DataFrame_def drop_column_def)

text \<open>
  C1, amended: for every non-empty list of recommendation records whose three
  sub-records have pairwise disjoint keys, and in which at least one record carries the
  key \<open>VariantName\<close>, the aggregation returns a table with one row per record (the index
  and every column have the length of the list) whose column labels are all the keys of
  all the sub-records except \<open>VariantName\<close>.
\<close>

theorem aggregation_columns:
  assumes "xs \<noteq> []"
    and "list_all disjoint_keys xs"
    and "list_ex (\<lambda>x. ''VariantName'' \<in> record_keys x) xs"
  shows "\<exists>df. aggregate_records xs = Inr df \<and>
           length (index df) = length xs \<and>
           list_all (\<lambda>col. length (snd col) = length xs) (columns df) \<and>
           set (map fst (columns df)) = (\<Union>x\<in>set xs. record_keys x) - {''VariantName''}"
proof -
  have "\<forall>x\<in>set xs. \<exists>d. flatten x = Inr d"
  proof
    fix x assume "x \<in> set xs"
    with assms(2) have "disjoint_keys x" by (simp add: list_all_iff)
    then obtain ec mc me where "sub_records x = Some (ec, mc, me)"
      by (auto simp: disjoint_keys_def split: option.splits)
    then show "\<exists>d. flatten x = Inr d" by (simp add: flatten_sub_records)
  qed
  then obtain data where data: "comprehension flatten xs = Inr data"
    using comprehension_total by blast
  have "(\<Union>d\<in>set data. fst ` set d) = (\<Union>x\<in>set xs. record_keys x)"
  proof (intro equalityI subsetI)
    fix k assume "k \<in> (\<Union>d\<in>set data. fst ` set d)"
    then obtain d where d: "d \<in> set data" "k \<in> fst ` set d" by blast
    then obtain x where "x \<in> set xs" "flatten x = Inr d"
      using comprehension_source [OF data] by blast
    with d flatten_keys show "k \<in> (\<Union>x\<in>set xs. record_keys x)" by blast
  next
    fix k assume "k \<in> (\<Union>x\<in>set xs. record_keys x)"
    then obtain x where x: "x \<in> set xs" "k \<in> record_keys x" by blast
    then obtain d where "d \<in> set data" "flatten x = Inr d"
      using comprehension_image [OF data] by blast
    with x flatten_keys show "k \<in> (\<Union>d\<in>set data. fst ` set d)" by blast
  qed
  then have labels:
    "set (map fst (columns (DataFrame data))) = (\<Union>x\<in>set xs. record_keys x)"
    by (simp only: labels_DataFrame)
  with assms(3) have present: "''VariantName'' \<in> set (map fst (columns (DataFrame data)))"
    by (auto simp: list_ex_iff)
  have len: "length data = length xs"
    using data by (rule comprehension_length)
  let ?df = "(DataFrame data)\<lparr>columns :=
      filter (\<lambda>p. fst p \<noteq> ''VariantName'') (columns (DataFrame data))\<rparr>"
  have "aggregate_records xs = Inr ?df"
    using data present by (simp add: aggregate_records_def drop_column_def)
  moreover have "length (index ?df) = length xs"
    by (simp add: DataFrame_def len)
  moreover have "list_all (\<lambda>col. length (snd col) = length xs) (columns ?df)"
    by (auto simp: DataFrame_def len list_all_iff)
  moreover have "set (map fst (columns ?df)) =
      (\<Union>x\<in>set xs. record_keys x) - {''VariantName''}"
    using labels by auto
  ultimately show ?thesis by blast
qed

text \<open>The two example recommendations satisfy the hypotheses of C1 as amended; their
  table has two rows and the four columns other than \<open>VariantName\<close>.\<close>

theorem aggregation_columns_witness:
  "example_recommendations \<noteq> [] \<and>
   list_all disjoint_keys example_recommendations \<and>
   list_ex (\<lambda>x. ''VariantName'' \<in> record_keys x) example_recommendations \<and>
   (\<exists>df. aggregate_records example_recommendations = Inr df \<and>
      length (index df) = 2 \<and>
      set (map fst (columns df)) =
        {''InstanceType'', ''OMP_NUM_THREADS'', ''ModelLatency'', ''CostPerHour''})"
proof -
  have h1: "example_recommendations \<noteq> []"
    by (simp add: example_recommendations_def)
  have h2: "list_all disjoint_keys example_recommendations"
    by (simp add: example_recommendations_def recommendation_def disjoint_keys_def
          sub_records_def)
  have h3: "list_ex (\<lambda>x. ''VariantName'' \<in> record_keys x) example_recommendations"
    by (simp add: example_recommendations_def recommendation_def record_keys_def
          sub_records_def)
  have keys: "(\<Union>x\<in>set example_recommendations. record_keys x) - {''VariantName''} =
      {''InstanceType'', ''OMP_NUM_THREADS'', ''ModelLatency'', ''CostPerHour''}"
    by (auto simp: example_recommendations_def recommendation_def record_keys_def
          sub_records_def)
  have "length example_recommendations = 2"
    by (simp add: example_recommendations_def)
  with aggregation_columns [OF h1 h2 h3] keys h1 h2 h3 show ?thesis
    by (simp only:) blast
qed

text \<open>
  C2, as the claim states it, fails: for a stopped job whose recommendation list is
  empty the aggregation cell raises KeyError.
\<close>

theorem stopped_job_aggregation_raises:
  "aggregation_cell stopped_job = Inl (KeyError ''VariantName'')"
  by (simp add: stopped_job_def aggregation_cell_def aggregate_records_def DataFrame_def
        drop_column_def)

text \<open>
  C2, amended: for an empty recommendation list the comprehension yields no row and the
  table built from it is empty, with no row and no column; the removal of the column
  \<open>VariantName\<close>, which the empty table does not have, then raises KeyError, and this is
  the outcome of the aggregation.
\<close>

theorem empty_list_aggregation:
  "comprehension flatten [] = Inr [] \<and>
   DataFrame [] = \<lparr>index = [], columns = []\<rparr> \<and>
   aggregate_records [] = Inl (KeyError ''VariantName'')"
  by (simp add: aggregate_records_def DataFrame_def drop_column_def)

text \<open>
  C8: the aggregator neither sorts nor filters. Whenever it returns a table for a
  recommendation list, the index is \<open>0, \<dots>, n - 1\<close> for the \<open>n\<close> records, every column
  has \<open>n\<close> cells, and row \<open>i\<close> holds, under each column label, what the flattened record
  \<open>i\<close> of the list has under that key. What the cell displays, \<open>df.head()\<close>, is the first
  five of these rows, unchanged and in the same order.
\<close>

theorem aggregation_preserves_order:
  assumes "aggregate_records xs = Inr df"
  shows "index df = [0..<length xs] \<and>
         list_all (\<lambda>col. length (snd col) = length xs) (columns df) \<and>
         (\<forall>i<length xs. \<exists>d. flatten (xs ! i) = Inr d \<and>
            row df i = map (\<lambda>c. (c, map_of d c)) (map fst (columns df))) \<and>
         index (head df) = [0..<min 5 (length xs)] \<and>
         (\<forall>i<5. row (head df) i = row df i)"
proof -
  from assms obtain data where data: "comprehension flatten xs = Inr data"
    and df: "drop_column ''VariantName'' (DataFrame data) = Inr df"
    by (auto simp: aggregate_records_def split: sum.splits)
  have len: "length data = length xs" using data by (rule comprehension_length)
  from df have cols:
    "columns df = filter (\<lambda>p. fst p \<noteq> ''VariantName'') (columns (DataFrame data))"
    and idx: "index df = index (DataFrame data)"
    by (auto simp: drop_column_def split: if_splits)
  have "index df = [0..<length xs]" using idx len by (simp add: DataFrame_def)
  moreover have "list_all (\<lambda>col. length (snd col) = length xs) (columns df)"
    by (auto simp: cols list_all_iff DataFrame_def len)
  moreover have "\<exists>d. flatten (xs ! i) = Inr d \<and>
      row df i = map (\<lambda>c. (c, map_of d c)) (map fst (columns df))" if "i < length xs" for i
  proof -
    have "flatten (xs ! i) = Inr (data ! i)" using data that by (rule comprehension_nth)
    moreover have "row df i = map (\<lambda>c. (c, map_of (data ! i) c)) (map fst (columns df))"
      using that len
      by (auto simp: row_def cols DataFrame_def filter_map comp_def)
    ultimately show ?thesis by blast
  qed
  moreover have "index (head df) = [0..<min 5 (length xs)]"
    using idx len by (simp add: head_def DataFrame_def take_five_upt)
  moreover have "\<forall>i<5. row (head df) i = row df i"
    by (simp add: head_def row_def comp_def)
  ultimately show ?thesis by blast
qed

text \<open>The table of the two example recommendations: the first row comes from the first
  record, the second from the second.\<close>

theorem aggregation_preserves_order_witness:
  "aggregate_records example_recommendations = Inr example_table \<and>
   index example_table = [0, 1] \<and>
   row example_table 0 =
     [(''InstanceType'', Some (Str ''ml.c5.xlarge'')), (''OMP_NUM_THREADS'', Some (Str ''2'')),
      (''ModelLatency'', Some (Atom 40)), (''CostPerHour'', Some (Atom 1))] \<and>
   row example_table 1 =
     [(''InstanceType'', Some (Str ''ml.c5.xlarge'')), (''OMP_NUM_THREADS'', Some (Str ''4'')),
      (''ModelLatency'', Some (Atom 55)), (''CostPerHour'', Some (Atom 1))]"
proof -
  have t: "aggregate_records example_recommendations = Inr example_table"
    by (rule aggregate_example)
  have n: "length example_recommendations = 2"
    by (simp add: example_recommendations_def)
  from aggregation_preserves_order [OF t] n
  have i: "index example_table = [0..<2]"
    and r: "\<forall>i<2. \<exists>d. flatten (example_recommendations ! i) = Inr d \<and>
      row example_table i = map (\<lambda>c. (c, map_of d c)) (map fst (columns example_table))"
    by simp_all
  from r have "\<exists>d. flatten (example_recommendations ! 0) = Inr d \<and>
      row example_table 0 = map (\<lambda>c. (c, map_of d c)) (map fst (columns example_table))"
    by simp
  then have r0: "row example_table 0 =
     [(''InstanceType'', Some (Str ''ml.c5.xlarge'')), (''OMP_NUM_THREADS'', Some (Str ''2'')),
      (''ModelLatency'', Some (Atom 40)), (''CostPerHour'', Some (Atom 1))]"
    by (auto simp: example_recommendations_def recommendation_def flatten_def dict_update_def
          example_table_def)
  from r have "\<exists>d. flatten (example_recommendations ! 1) = Inr d \<and>
      row example_table 1 = map (\<lambda>c. (c, map_of d c)) (map fst (columns example_table))"
    by simp
  then have r1: "row example_table 1 =
     [(''InstanceType'', Some (Str ''ml.c5.xlarge'')), (''OMP_NUM_THREADS'', Some (Str ''4'')),
      (''ModelLatency'', Some (Atom 55)), (''CostPerHour'', Some (Atom 1))]"
    by (auto simp: example_recommendations_def recommendation_def flatten_def dict_update_def
          example_table_def)
  have "index example_table = [0, 1]" by (simp add: example_table_def)
  with t r0 r1 show ?thesis by blast
qed

text \<open>
  C10: the merge is right-biased. For a recommendation record with the three sub-records
  (each a dictionary, so with distinct keys), the flattened row has under every key the
  value of the metrics sub-record when the key is there, otherwise the value of the
  model-configuration sub-record when the key is there, otherwise what the
  endpoint-configuration sub-record has.
\<close>

theorem flatten_right_biased:
  assumes "sub_records x = Some (ec, mc, me)"
    and "distinct (map fst ec)" "distinct (map fst mc)" "distinct (map fst me)"
  shows "\<exists>d. flatten x = Inr d \<and>
           map_of d k =
             (case map_of me k of
                Some v \<Rightarrow> Some v
              | None \<Rightarrow> (case map_of mc k of Some v \<Rightarrow> Some v | None \<Rightarrow> map_of ec k))"
  using assms
  by (simp add: flatten_sub_records map_of_dict_update map_of_rev_distinct split: option.splits)

text \<open>A record whose sub-records share the keys \<open>InstanceType\<close> (all three) and \<open>Note\<close>
  (the first two): the metrics value wins the first, the model-configuration value the
  second.\<close>

theorem flatten_right_biased_witness:
  "sub_records overlapping_recommendation =
     Some ([(''InstanceType'', Str ''from-endpoint''), (''Note'', Str ''from-endpoint''),
            (''VariantName'', Str ''v1'')],
           [(''InstanceType'', Str ''from-model''), (''Note'', Str ''from-model'')],
           [(''InstanceType'', Str ''from-metrics'')]) \<and>
   (\<exists>d. flatten overlapping_recommendation = Inr d \<and>
      map_of d ''InstanceType'' = Some (Str ''from-metrics'')) \<and>
   (\<exists>d. flatten overlapping_recommendation = Inr d \<and>
      map_of d ''Note'' = Some (Str ''from-model''))"
proof -
  let ?ec = "[(''InstanceType'', Str ''from-endpoint''), (''Note'', Str ''from-endpoint''),
            (''VariantName'', Str ''v1'')] :: int pydict"
  let ?mc = "[(''InstanceType'', Str ''from-model''), (''Note'', Str ''from-model'')] :: int pydict"
  let ?me = "[(''InstanceType'', Str ''from-metrics'')] :: int pydict"
  have s: "sub_records overlapping_recommendation = Some (?ec, ?mc, ?me)"
    by (simp add: overlapping_recommendation_def sub_records_def)
  have d: "distinct (map fst ?ec)" "distinct (map fst ?mc)" "distinct (map fst ?me)"
    by simp_all
  show ?thesis
    using s flatten_right_biased [OF s d, of "''InstanceType''"]
      flatten_right_biased [OF s d, of "''Note''"] by simp
qed

section \<open>Properties of the polling loop\<close>

lemma after_polls_0: "after_polls n 0 w = w"
  by (simp add: after_polls_def)

lemma after_polls_Suc:
  "after_polls n (Suc k) w =
     after_polls n k (w\<lparr>calls := Suc (calls w),
        trace := trace w @ [Describe n, Print ''In progress'', Sleep 300]\<rparr>)"
  by (simp add: after_polls_def)

lemma poll_step:
  "in_progress (srv n (calls w)) \<Longrightarrow>
   poll srv n w = poll srv n (w\<lparr>calls := Suc (calls w),
        trace := trace w @ [Describe n, Print ''In progress'', Sleep 300]\<rparr>)"
  by (subst poll.simps) (auto simp: in_progress_def split: sum.splits)

lemma poll_stop:
  "srv n (calls w) = Inr job \<Longrightarrow> has_terminal_status job \<Longrightarrow>
   poll srv n w = Some (Inr (job, w\<lparr>calls := Suc (calls w), trace := trace w @ [Describe n]\<rparr>))"
  by (subst poll.simps) (auto simp: has_terminal_status_def split: sum.splits)

lemma poll_reaches:
  "\<forall>i<k. in_progress (srv n (calls w + i)) \<Longrightarrow> poll srv n w = poll srv n (after_polls n k w)"
proof (induction k arbitrary: w)
  case 0
  show ?case by (simp add: after_polls_0)
next
  case (Suc k)
  let ?w = "w\<lparr>calls := Suc (calls w),
        trace := trace w @ [Describe n, Print ''In progress'', Sleep 300]\<rparr>"
  from Suc.prems have "in_progress (srv n (calls w))" by force
  then have "poll srv n w = poll srv n ?w" by (rule poll_step)
  also have "\<dots> = poll srv n (after_polls n k ?w)"
  proof (rule Suc.IH)
    show "\<forall>i<k. in_progress (srv n (calls ?w + i))"
      using Suc.prems by auto
  qed
  finally show ?case by (simp add: after_polls_Suc)
qed

lemma poll_result_aux:
  assumes "poll srv n w = Some y"
  shows "\<forall>job w'. y = Inr (job, w') \<longrightarrow>
    (\<exists>k. (\<forall>i<k. in_progress (srv n (calls w + i))) \<and> srv n (calls w + k) = Inr job \<and>
       has_terminal_status job \<and>
       w' = (after_polls n k w)\<lparr>calls := Suc (calls w + k),
               trace := trace (after_polls n k w) @ [Describe n]\<rparr>)"
proof (rule poll.raw_induct [where P = "\<lambda>srv n w y. \<forall>job w'. y = Inr (job, w') \<longrightarrow>
    (\<exists>k. (\<forall>i<k. in_progress (srv n (calls w + i))) \<and> srv n (calls w + k) = Inr job \<and>
       has_terminal_status job \<and>
       w' = (after_polls n k w)\<lparr>calls := Suc (calls w + k),
               trace := trace (after_polls n k w) @ [Describe n]\<rparr>)", OF _ assms], goal_cases)
  case (1 poll srv n w y)
  show ?case
  proof (cases "srv n (calls w)")
    case (Inl e)
    with 1(2) show ?thesis by auto
  next
    case (Inr job0)
    show ?thesis
    proof (cases "getitem job0 ''Status''")
      case (Inl e)
      with Inr 1(2) show ?thesis by auto
    next
      case st: (Inr st)
      show ?thesis
      proof (cases "st \<in> set terminal")
        case True
        with Inr st 1(2) have y: "y = Inr (job0, w\<lparr>calls := Suc (calls w), trace := trace w @ [Describe n]\<rparr>)"
          by auto
        have "has_terminal_status job0"
          using st True by (simp add: has_terminal_status_def)
        with y Inr show ?thesis
          by (auto intro!: exI [of _ 0] simp: after_polls_0)
      next
        case False
        let ?w = "w\<lparr>calls := Suc (calls w),
            trace := trace w @ [Describe n, Print ''In progress'', Sleep 300]\<rparr>"
        from False Inr st 1(2) have rec: "poll srv n ?w = Some y" by auto
        have first: "in_progress (srv n (calls w))"
          using Inr st False by (simp add: in_progress_def)
        show ?thesis
        proof (intro allI impI)
          fix job w' assume "y = Inr (job, w')"
          with 1(1) [OF rec] obtain k where k:
            "\<forall>i<k. in_progress (srv n (calls ?w + i))" "srv n (calls ?w + k) = Inr job"
            "has_terminal_status job"
            "w' = (after_polls n k ?w)\<lparr>calls := Suc (calls ?w + k),
               trace := trace (after_polls n k ?w) @ [Describe n]\<rparr>"
            by blast
          have "\<forall>i<Suc k. in_progress (srv n (calls w + i))"
          proof (intro allI impI)
            fix i assume "i < Suc k"
            show "in_progress (srv n (calls w + i))"
            proof (cases i)
              case 0 with first show ?thesis by simp
            next
              case (Suc j)
              with \<open>i < Suc k\<close> k(1) have "in_progress (srv n (calls ?w + j))" by simp
              with Suc show ?thesis by simp
            qed
          qed
          moreover have "srv n (calls w + Suc k) = Inr job" using k(2) by simp
          moreover have "w' = (after_polls n (Suc k) w)\<lparr>calls := Suc (calls w + Suc k),
               trace := trace (after_polls n (Suc k) w) @ [Describe n]\<rparr>"
            using k(4) by (simp add: after_polls_Suc)
          ultimately show "\<exists>k. (\<forall>i<k. in_progress (srv n (calls w + i))) \<and>
             srv n (calls w + k) = Inr job \<and> has_terminal_status job \<and>
             w' = (after_polls n k w)\<lparr>calls := Suc (calls w + k),
               trace := trace (after_polls n k w) @ [Describe n]\<rparr>"
            using k(3) by blast
        qed
      qed
    qed
  qed
qed

lemma poll_diverges_aux:
  assumes "poll srv n w = Some y"
  shows "\<not> (\<forall>i. in_progress (srv n (calls w + i)))"
proof (rule poll.raw_induct [where P = "\<lambda>srv n w y.
    \<not> (\<forall>i. in_progress (srv n (calls w + i)))", OF _ assms], goal_cases)
  case (1 poll srv n w y)
  show ?case
  proof
    assume all: "\<forall>i. in_progress (srv n (calls w + i))"
    then have "in_progress (srv n (calls w))" by (metis add.right_neutral)
    then obtain job st where r: "srv n (calls w) = Inr job" "getitem job ''Status'' = Inr st"
      "st \<notin> set terminal"
      by (auto simp: in_progress_def split: sum.splits)
    let ?w = "w\<lparr>calls := Suc (calls w),
            trace := trace w @ [Describe n, Print ''In progress'', Sleep 300]\<rparr>"
    from r 1(2) have "poll srv n ?w = Some y" by auto
    then have "\<not> (\<forall>i. in_progress (srv n (calls ?w + i)))" by (rule 1(1))
    moreover have "\<forall>i. in_progress (srv n (calls ?w + i))"
    proof
      fix i from all have "in_progress (srv n (calls w + Suc i))" by blast
      then show "in_progress (srv n (calls ?w + i))" by simp
    qed
    ultimately show False by blast
  qed
qed

lemma poll_diverges:
  assumes "\<forall>i. in_progress (srv n (calls w + i))"
  shows "poll srv n w = None"
  using assms poll_diverges_aux by (cases "poll srv n w") blast+

lemma poll_Some_iff:
  "poll srv n w = Some (Inr (job, w')) \<longleftrightarrow>
    (\<exists>k. (\<forall>i<k. in_progress (srv n (calls w + i))) \<and> srv n (calls w + k) = Inr job \<and>
       has_terminal_status job \<and>
       w' = (after_polls n k w)\<lparr>calls := Suc (calls w + k),
               trace := trace (after_polls n k w) @ [Describe n]\<rparr>)"
proof
  assume "poll srv n w = Some (Inr (job, w'))"
  then show "\<exists>k. (\<forall>i<k. in_progress (srv n (calls w + i))) \<and> srv n (calls w + k) = Inr job \<and>
       has_terminal_status job \<and>
       w' = (after_polls n k w)\<lparr>calls := Suc (calls w + k),
               trace := trace (after_polls n k w) @ [Describe n]\<rparr>"
    using poll_result_aux by blast
next
  assume "\<exists>k. (\<forall>i<k. in_progress (srv n (calls w + i))) \<and> srv n (calls w + k) = Inr job \<and>
       has_terminal_status job \<and>
       w' = (after_polls n k w)\<lparr>calls := Suc (calls w + k),
               trace := trace (after_polls n k w) @ [Describe n]\<rparr>"
  then obtain k where k: "\<forall>i<k. in_progress (srv n (calls w + i))"
    "srv n (calls w + k) = Inr job" "has_terminal_status job"
    "w' = (after_polls n k w)\<lparr>calls := Suc (calls w + k),
               trace := trace (after_polls n k w) @ [Describe n]\<rparr>"
    by blast
  have "poll srv n w = poll srv n (after_polls n k w)"
    using k(1) by (rule poll_reaches)
  also have "\<dots> = Some (Inr (job, (after_polls n k w)\<lparr>calls := Suc (calls (after_polls n k w)),
      trace := trace (after_polls n k w) @ [Describe n]\<rparr>))"
    using k(2,3) by (intro poll_stop) (simp_all add: after_polls_def)
  finally show "poll srv n w = Some (Inr (job, w'))"
    using k(4) by (simp add: after_polls_def)
qed


text \<open>The loop ends with an exception exactly when, after some number of responses
  that are not terminal, a query raises.\<close>

lemma poll_raise_now:
  "raises (srv n (calls w)) e \<Longrightarrow> poll srv n w = Some (Inl e)"
  by (subst poll.simps) (auto simp: raises_def split: sum.splits)

lemma poll_raises_aux:
  assumes "poll srv n w = Some y"
  shows "\<forall>e. y = Inl e \<longrightarrow>
    (\<exists>k. (\<forall>i<k. in_progress (srv n (calls w + i))) \<and> raises (srv n (calls w + k)) e)"
proof (rule poll.raw_induct [where P = "\<lambda>srv n w y. \<forall>e. y = Inl e \<longrightarrow>
    (\<exists>k. (\<forall>i<k. in_progress (srv n (calls w + i))) \<and> raises (srv n (calls w + k)) e)",
    OF _ assms], goal_cases)
  case (1 poll srv n w y)
  show ?case
  proof (intro allI impI)
    fix e assume y: "y = Inl e"
    show "\<exists>k. (\<forall>i<k. in_progress (srv n (calls w + i))) \<and> raises (srv n (calls w + k)) e"
    proof (cases "in_progress (srv n (calls w))")
      case False
      with 1(2) y have "raises (srv n (calls w)) e"
        by (auto simp: in_progress_def raises_def split: sum.splits if_splits)
      then show ?thesis by (intro exI [of _ 0]) simp
    next
      case True
      let ?w = "w\<lparr>calls := Suc (calls w),
            trace := trace w @ [Describe n, Print ''In progress'', Sleep 300]\<rparr>"
      from True 1(2) have "poll srv n ?w = Some y"
        by (auto simp: in_progress_def split: sum.splits if_splits)
      from 1(1) [OF this] y obtain k where
        k: "\<forall>i<k. in_progress (srv n (calls ?w + i))" "raises (srv n (calls ?w + k)) e"
        by blast
      have "\<forall>i<Suc k. in_progress (srv n (calls w + i))"
      proof (intro allI impI)
        fix i assume "i < Suc k"
        show "in_progress (srv n (calls w + i))"
        proof (cases i)
          case 0 with True show ?thesis by simp
        next
          case (Suc j)
          with \<open>i < Suc k\<close> k(1) have "in_progress (srv n (calls ?w + j))" by simp
          with Suc show ?thesis by simp
        qed
      qed
      moreover have "raises (srv n (calls w + Suc k)) e" using k(2) by simp
      ultimately show ?thesis by blast
    qed
  qed
qed

lemma poll_raises_iff:
  "poll srv n w = Some (Inl e) \<longleftrightarrow>
    (\<exists>k. (\<forall>i<k. in_progress (srv n (calls w + i))) \<and> raises (srv n (calls w + k)) e)"
proof
  assume "poll srv n w = Some (Inl e)"
  then show "\<exists>k. (\<forall>i<k. in_progress (srv n (calls w + i))) \<and> raises (srv n (calls w + k)) e"
    using poll_raises_aux by blast
next
  assume "\<exists>k. (\<forall>i<k. in_progress (srv n (calls w + i))) \<and> raises (srv n (calls w + k)) e"
  then obtain k where k: "\<forall>i<k. in_progress (srv n (calls w + i))"
    "raises (srv n (calls w + k)) e" by blast
  have "poll srv n w = poll srv n (after_polls n k w)" using k(1) by (rule poll_reaches)
  also have "\<dots> = Some (Inl e)"
    using k(2) by (intro poll_raise_now) (simp add: after_polls_def)
  finally show "poll srv n w = Some (Inl e)" .
qed

lemma sleeps_append: "sleeps (xs @ ys) = sleeps xs @ sleeps ys"
  by (induction xs rule: sleeps.induct) simp_all

lemma queries_append: "queries (xs @ ys) = queries xs @ queries ys"
  by (induction xs rule: queries.induct) simp_all

lemma sleeps_after_polls:
  "sleeps (trace (after_polls n k w)) = sleeps (trace w) @ replicate k 300"
  by (induction k) (simp_all add: after_polls_def sleeps_append replicate_append_same)

lemma queries_after_polls:
  "queries (trace (after_polls n k w)) = queries (trace w) @ replicate k n"
  by (induction k) (simp_all add: after_polls_def queries_append replicate_append_same)

lemma in_progress_completing:
  "\<forall>i<2. in_progress (completing_service n (calls fresh_world + i))"
  by (simp add: completing_service_def in_progress_def terminal_def fresh_world_def)

lemma poll_completing:
  "poll completing_service n fresh_world =
     Some (Inr (completed_job,
       \<lparr>calls = 3,
        trace = [Describe n, Print ''In progress'', Sleep 300,
                 Describe n, Print ''In progress'', Sleep 300, Describe n]\<rparr>))"
proof -
  have "\<exists>k. (\<forall>i<k. in_progress (completing_service n (calls fresh_world + i))) \<and>
     completing_service n (calls fresh_world + k) = Inr completed_job \<and>
     has_terminal_status completed_job \<and>
     \<lparr>calls = 3,
        trace = [Describe n, Print ''In progress'', Sleep 300,
                 Describe n, Print ''In progress'', Sleep 300, Describe n]\<rparr> =
       (after_polls n k fresh_world)\<lparr>calls := Suc (calls fresh_world + k),
               trace := trace (after_polls n k fresh_world) @ [Describe n]\<rparr>"
    using in_progress_completing [of n]
    by (intro exI [of _ 2])
       (simp add: completing_service_def has_terminal_status_def completed_job_def terminal_def
          fresh_world_def after_polls_def numeral_2_eq_2)
  then show ?thesis by (simp only: poll_Some_iff)
qed



text \<open>
  C4: the loop ends exactly when a freshly queried status is first one of \<open>COMPLETED\<close>,
  \<open>STOPPED\<close>, \<open>FAILED\<close>. It returns a job record and a world if and only if, for some
  \<open>k\<close>, the next \<open>k\<close> responses of the service are not terminal and the one after them
  is that job record with a terminal status; the world then has \<open>k + 1\<close> more queries
  than before. Every round queries the service again: the record returned is the
  response to the last query sent, and the trace has one query of the job name per
  round.
\<close>

theorem poll_ends_at_first_terminal_status:
  "(poll srv n w = Some (Inr (job, w')) \<longleftrightarrow>
    (\<exists>k. (\<forall>i<k. in_progress (srv n (calls w + i))) \<and> srv n (calls w + k) = Inr job \<and>
       has_terminal_status job \<and>
       w' = (after_polls n k w)\<lparr>calls := Suc (calls w + k),
               trace := trace (after_polls n k w) @ [Describe n]\<rparr>)) \<and>
   (poll srv n w = Some (Inr (job, w')) \<longrightarrow>
      calls w < calls w' \<and> srv n (calls w' - 1) = Inr job \<and>
      queries (trace w') = queries (trace w) @ replicate (calls w' - calls w) n)"
proof (intro conjI impI)
  show "poll srv n w = Some (Inr (job, w')) \<longleftrightarrow>
    (\<exists>k. (\<forall>i<k. in_progress (srv n (calls w + i))) \<and> srv n (calls w + k) = Inr job \<and>
       has_terminal_status job \<and>
       w' = (after_polls n k w)\<lparr>calls := Suc (calls w + k),
               trace := trace (after_polls n k w) @ [Describe n]\<rparr>)"
    by (rule poll_Some_iff)
next
  assume "poll srv n w = Some (Inr (job, w'))"
  then obtain k where k: "srv n (calls w + k) = Inr job"
    "w' = (after_polls n k w)\<lparr>calls := Suc (calls w + k),
               trace := trace (after_polls n k w) @ [Describe n]\<rparr>"
    using poll_Some_iff [of srv n w job w'] by blast
  from k(2) have c: "calls w' = Suc (calls w + k)" by simp
  from c show "calls w < calls w'" by simp
  from c k(1) show "srv n (calls w' - 1) = Inr job" by simp
  from k(2) have "queries (trace w') = queries (trace w) @ replicate k n @ [n]"
    by (simp add: queries_append queries_after_polls)
  also have "replicate k n @ [n] = replicate (calls w' - calls w) n"
    using c by (simp add: replicate_append_same)
  finally show "queries (trace w') = queries (trace w) @ replicate (calls w' - calls w) n" .
qed

text \<open>The example scenario: \<open>IN_PROGRESS\<close> twice, then \<open>COMPLETED\<close>. The loop returns
  after the third query.\<close>

theorem poll_ends_at_first_terminal_status_witness:
  "poll completing_service ''resnet50-instance-1690000000'' fresh_world =
     Some (Inr (completed_job,
       \<lparr>calls = 3,
        trace = [Describe ''resnet50-instance-1690000000'', Print ''In progress'', Sleep 300,
                 Describe ''resnet50-instance-1690000000'', Print ''In progress'', Sleep 300,
                 Describe ''resnet50-instance-1690000000'']\<rparr>))"
proof -
  let ?n = "''resnet50-instance-1690000000''"
  have "\<exists>k. (\<forall>i<k. in_progress (completing_service ?n (calls fresh_world + i))) \<and>
     completing_service ?n (calls fresh_world + k) = Inr completed_job \<and>
     has_terminal_status completed_job \<and>
     \<lparr>calls = 3,
        trace = [Describe ?n, Print ''In progress'', Sleep 300,
                 Describe ?n, Print ''In progress'', Sleep 300, Describe ?n]\<rparr> =
       (after_polls ?n k fresh_world)\<lparr>calls := Suc (calls fresh_world + k),
               trace := trace (after_polls ?n k fresh_world) @ [Describe ?n]\<rparr>"
    using in_progress_completing [of ?n]
    by (intro exI [of _ 2])
       (simp add: completing_service_def has_terminal_status_def completed_job_def terminal_def
          fresh_world_def after_polls_def numeral_2_eq_2)
  then show ?thesis using poll_ends_at_first_terminal_status [of completing_service ?n fresh_world completed_job] by blast
qed

text \<open>
  C5: between two queries the loop sleeps 300, always, and no number of rounds ends it.
  For every \<open>k\<close>, when the next \<open>k\<close> responses are not terminal and the one after them is
  a job record with a terminal status, the loop returns that record, and what it has
  done in between is \<open>k\<close> rounds of one query, one \<open>In progress\<close> and one sleep of 300,
  then the last query: \<open>k\<close> sleeps, 300 each, one between any two consecutive queries.
  When the status never becomes terminal, the loop never returns.
\<close>

theorem poll_fixed_interval_unbounded:
  "((\<forall>i<k. in_progress (srv n (calls w + i))) \<and> srv n (calls w + k) = Inr job \<and>
      has_terminal_status job \<longrightarrow>
      (\<exists>w'. poll srv n w = Some (Inr (job, w')) \<and>
         trace w' = trace w @
           concat (replicate k [Describe n, Print ''In progress'', Sleep 300]) @ [Describe n] \<and>
         sleeps (trace w') = sleeps (trace w) @ replicate k 300 \<and>
         calls w' = calls w + k + 1)) \<and>
   ((\<forall>i. in_progress (srv n (calls w + i))) \<longrightarrow> poll srv n w = None)"
proof (intro conjI impI)
  assume h: "(\<forall>i<k. in_progress (srv n (calls w + i))) \<and> srv n (calls w + k) = Inr job \<and>
      has_terminal_status job"
  let ?w = "(after_polls n k w)\<lparr>calls := Suc (calls w + k),
               trace := trace (after_polls n k w) @ [Describe n]\<rparr>"
  from h have "poll srv n w = Some (Inr (job, ?w))"
    by (simp only: poll_Some_iff) blast
  moreover have "trace ?w = trace w @
      concat (replicate k [Describe n, Print ''In progress'', Sleep 300]) @ [Describe n]"
    by (simp add: after_polls_def)
  moreover have "sleeps (trace ?w) = sleeps (trace w) @ replicate k 300"
    by (simp add: sleeps_append sleeps_after_polls)
  moreover have "calls ?w = calls w + k + 1" by simp
  ultimately show "\<exists>w'. poll srv n w = Some (Inr (job, w')) \<and>
         trace w' = trace w @
           concat (replicate k [Describe n, Print ''In progress'', Sleep 300]) @ [Describe n] \<and>
         sleeps (trace w') = sleeps (trace w) @ replicate k 300 \<and>
         calls w' = calls w + k + 1"
    by blast
next
  assume "\<forall>i. in_progress (srv n (calls w + i))"
  then show "poll srv n w = None" by (rule poll_diverges)
qed

text \<open>The job that is in progress twice and then completed: the loop returns after three
  queries with two sleeps of 300 in its trace. The job that never leaves \<open>IN_PROGRESS\<close>
  blocks the loop for ever.\<close>

theorem poll_fixed_interval_unbounded_witness:
  "(\<exists>w'. poll completing_service ''resnet50-instance-1690000000'' fresh_world =
            Some (Inr (completed_job, w')) \<and>
      trace w' =
        [Describe ''resnet50-instance-1690000000'', Print ''In progress'', Sleep 300,
         Describe ''resnet50-instance-1690000000'', Print ''In progress'', Sleep 300,
         Describe ''resnet50-instance-1690000000''] \<and>
      sleeps (trace w') = [300, 300] \<and> calls w' = 3) \<and>
   poll stuck_service ''resnet50-instance-1690000000'' fresh_world = None"
proof -
  let ?n = "''resnet50-instance-1690000000''"
  have run: "(\<forall>i<2. in_progress (completing_service ?n (calls fresh_world + i))) \<and>
      completing_service ?n (calls fresh_world + 2) = Inr completed_job \<and>
      has_terminal_status completed_job"
    using in_progress_completing [of ?n]
    by (simp add: completing_service_def has_terminal_status_def completed_job_def terminal_def
          fresh_world_def)
  have stuck: "\<forall>i. in_progress (stuck_service ?n (calls fresh_world + i))"
    by (simp add: stuck_service_def in_progress_def terminal_def)
  from poll_fixed_interval_unbounded [of 2 completing_service ?n fresh_world completed_job] run
  obtain w' where w': "poll completing_service ?n fresh_world = Some (Inr (completed_job, w'))"
    "trace w' = trace fresh_world @
       concat (replicate 2 [Describe ?n, Print ''In progress'', Sleep 300]) @ [Describe ?n]"
    "sleeps (trace w') = sleeps (trace fresh_world) @ replicate 2 300"
    "calls w' = calls fresh_world + 2 + 1"
    by blast
  from w'(2) have t: "trace w' = [Describe ?n, Print ''In progress'', Sleep 300,
         Describe ?n, Print ''In progress'', Sleep 300, Describe ?n]"
    by (simp add: fresh_world_def numeral_2_eq_2)
  from w'(3) have s: "sleeps (trace w') = [300, 300]"
    by (simp add: fresh_world_def numeral_2_eq_2)
  from w'(4) have c: "calls w' = 3" by (simp add: fresh_world_def)
  have "poll stuck_service ?n fresh_world = None"
    using poll_fixed_interval_unbounded [of _ stuck_service ?n fresh_world] stuck by blast
  with w'(1) t s c show ?thesis by blast
qed




section \<open>Properties of the decimal text\<close>

lemma digit_char_in: "digit_char n \<in> set ''0123456789''"
  unfolding digit_char_def by (rule nth_mem) simp

lemma digit_char_eq: "digit_char a = digit_char b \<longleftrightarrow> a mod 10 = b mod 10"
proof -
  have "distinct ''0123456789''" by simp
  then show ?thesis
    unfolding digit_char_def by (subst nth_eq_iff_index_eq) simp_all
qed

lemma str_nat_unfold:
  "str_nat n = (if n < 10 then [digit_char n] else str_nat (n div 10) @ [digit_char (n mod 10)])"
  by (rule str_nat.simps)


declare str_nat.simps [simp del]

lemmas str_nat_eval =
  str_nat.simps [of "numeral k"] str_nat.simps [of 0] str_nat.simps [of 1]
  str_nat.simps [of "Suc 0"] for k

lemma str_nat_nonempty: "str_nat n \<noteq> []"
  by (subst str_nat_unfold) simp

lemma str_nat_digits: "set (str_nat n) \<subseteq> set ''0123456789''"
proof (induction n rule: str_nat.induct)
  case (1 n)
  show ?case
  proof (cases "n < 10")
    case True
    then show ?thesis using digit_char_in [of n] by (subst str_nat_unfold) simp
  next
    case False
    then show ?thesis
      using 1 digit_char_in [of "n mod 10"] by (subst str_nat_unfold) simp
  qed
qed

lemma str_nat_inj: "str_nat a = str_nat b \<Longrightarrow> a = b"
proof (induction a arbitrary: b rule: str_nat.induct)
  case (1 a)
  show ?case
  proof (cases "a < 10")
    case a: True
    show ?thesis
    proof (cases "b < 10")
      case True
      with a 1(2) have "digit_char a = digit_char b"
        by (simp add: str_nat_unfold [of a] str_nat_unfold [of b])
      with a True show ?thesis by (simp add: digit_char_eq)
    next
      case False
      with a 1(2) have "[digit_char a] = str_nat (b div 10) @ [digit_char (b mod 10)]"
        by (simp add: str_nat_unfold [of a] str_nat_unfold [of b])
      then show ?thesis using str_nat_nonempty [of "b div 10"] by simp
    qed
  next
    case a: False
    show ?thesis
    proof (cases "b < 10")
      case True
      with a 1(2) have "str_nat (a div 10) @ [digit_char (a mod 10)] = [digit_char b]"
        by (simp add: str_nat_unfold [of a] str_nat_unfold [of b])
      then show ?thesis using str_nat_nonempty [of "a div 10"] by simp
    next
      case False
      with a 1(2) have "str_nat (a div 10) @ [digit_char (a mod 10)] =
          str_nat (b div 10) @ [digit_char (b mod 10)]"
        by (simp add: str_nat_unfold [of a] str_nat_unfold [of b])
      then have "str_nat (a div 10) = str_nat (b div 10)"
        and "digit_char (a mod 10) = digit_char (b mod 10)" by simp_all
      with 1(1) [OF a] have "a div 10 = b div 10" "a mod 10 = b mod 10"
        by (simp_all add: digit_char_eq)
      then show ?thesis by (metis div_mult_mod_eq)
    qed
  qed
qed

lemma str_nat_no_minus: "CHR ''-'' \<notin> set (str_nat n)"
  using str_nat_digits [of n] by auto

lemma str_int_inj: "str_int a = str_int b \<Longrightarrow> a = b"
proof -
  assume eq: "str_int a = str_int b"
  have neg: False if "i < 0" "0 \<le> j" "str_int i = str_int j" for i j
  proof -
    from that have "CHR ''-'' # str_nat (nat (- i)) = str_nat (nat j)"
      by (simp add: str_int_def)
    then have "CHR ''-'' \<in> set (str_nat (nat j))" by (metis list.set_intros(1))
    then show False using str_nat_no_minus by blast
  qed
  show "a = b"
  proof (cases "a < 0"; cases "b < 0")
    assume "a < 0" "b < 0"
    with eq have "nat (- a) = nat (- b)" by (auto simp: str_int_def dest: str_nat_inj)
    with \<open>a < 0\<close> \<open>b < 0\<close> show ?thesis by simp
  next
    assume "a < 0" "\<not> b < 0"
    with neg [of a b] eq show ?thesis by simp
  next
    assume "\<not> a < 0" "b < 0"
    with neg [of b a] eq show ?thesis by simp
  next
    assume "\<not> a < 0" "\<not> b < 0"
    with eq have "nat a = nat b" by (auto simp: str_int_def dest: str_nat_inj)
    with \<open>\<not> a < 0\<close> \<open>\<not> b < 0\<close> show ?thesis by simp
  qed
qed

lemma two_digits_inj: "a < 100 \<Longrightarrow> b < 100 \<Longrightarrow> two_digits a = two_digits b \<Longrightarrow> a = b"
proof -
  assume a: "a < 100" and b: "b < 100" and eq: "two_digits a = two_digits b"
  from eq have hi: "(a div 10) mod 10 = (b div 10) mod 10"
    by (simp add: two_digits_def digit_char_eq)
  from eq have lo: "a mod 10 = b mod 10"
    by (simp add: two_digits_def digit_char_eq)
  from a have "a div 10 < 10" by (simp add: less_mult_imp_div_less)
  moreover from b have "b div 10 < 10" by (simp add: less_mult_imp_div_less)
  ultimately have "a div 10 = b div 10" using hi by simp
  with lo show "a = b" by (metis div_mult_mod_eq)
qed

lemma strftime_inj:
  assumes "valid_datetime s" "valid_datetime t" "strftime s = strftime t"
  shows "to_the_second s = to_the_second t"
proof -
  let ?tail = "\<lambda>t. ''-'' @ two_digits (month t) @ ''-'' @ two_digits (day t) @ ''-'' @
     two_digits (hour t) @ ''-'' @ two_digits (minute t) @ ''-'' @ two_digits (second t)"
  have eq: "str_nat (year s) @ ?tail s = str_nat (year t) @ ?tail t"
    using assms(3) by (simp add: strftime_def)
  have len: "length (?tail s) = length (?tail t)" by (simp add: two_digits_def)
  have both: "str_nat (year s) = str_nat (year t) \<and> ?tail s = ?tail t"
    using eq append_eq_append_conv [OF disjI2 [OF len]] by blast
  then have y: "str_nat (year s) = str_nat (year t)" and tl: "?tail s = ?tail t"
    by blast+
  from tl have f: "two_digits (month s) = two_digits (month t)"
    "two_digits (day s) = two_digits (day t)" "two_digits (hour s) = two_digits (hour t)"
    "two_digits (minute s) = two_digits (minute t)" "two_digits (second s) = two_digits (second t)"
    by (simp_all add: two_digits_def)
  from assms(1) have bs: "month s < 100" "day s < 100" "hour s < 100" "minute s < 100"
    "second s < 100" by (simp_all add: valid_datetime_def)
  from assms(2) have bt: "month t < 100" "day t < 100" "hour t < 100" "minute t < 100"
    "second t < 100" by (simp_all add: valid_datetime_def)
  have "year s = year t" using y by (rule str_nat_inj)
  moreover have "month s = month t" using bs(1) bt(1) f(1) by (rule two_digits_inj)
  moreover have "day s = day t" using bs(2) bt(2) f(2) by (rule two_digits_inj)
  moreover have "hour s = hour t" using bs(3) bt(3) f(3) by (rule two_digits_inj)
  moreover have "minute s = minute t" using bs(4) bt(4) f(4) by (rule two_digits_inj)
  moreover have "second s = second t" using bs(5) bt(5) f(5) by (rule two_digits_inj)
  ultimately show ?thesis by (simp add: to_the_second_def)
qed

section \<open>Properties of the job names\<close>

lemma example_names:
  "default_job_name ''resnet50'' (16900000002 / 10) = ''resnet50-instance-1690000000''"
  "default_job_name ''resnet50'' (16900000004 / 10) = ''resnet50-instance-1690000000''"
  "advanced_job_name ''resnet50'' ''ml.c5.xlarge'' (16900000014 / 10) =
     ''resnet50-ml-c5-xlarge-load-test-1690000001''"
  "training_job_name (example_moment 58) = ''sklearn-boto3-2023-07-04-09-05-58''"
  by (simp_all add: default_job_name_def advanced_job_name_def replace_dots_def py_round_def Let_def
       str_int_def str_nat_eval digit_char_def training_job_name_def strftime_def two_digits_def
       example_moment_def)

text \<open>
  C7, as the claim states it, fails: the names are not unique. Two submissions whose
  timestamps round to the same second get the same default job name and the same
  advanced job name, and two moments that differ only in their microseconds get the same
  training job name.
\<close>

theorem same_second_same_job_name:
  "(16900000002 / 10 :: real) \<noteq> 16900000004 / 10 \<and>
   default_job_name ''resnet50'' (16900000002 / 10) =
     default_job_name ''resnet50'' (16900000004 / 10) \<and>
   advanced_job_name ''resnet50'' ''ml.c5.xlarge'' (16900000002 / 10) =
     advanced_job_name ''resnet50'' ''ml.c5.xlarge'' (16900000004 / 10) \<and>
   example_moment 58 \<noteq> (example_moment 58)\<lparr>microsecond := 500000\<rparr> \<and>
   valid_datetime (example_moment 58) \<and>
   valid_datetime ((example_moment 58)\<lparr>microsecond := 500000\<rparr>) \<and>
   training_job_name (example_moment 58) =
     training_job_name ((example_moment 58)\<lparr>microsecond := 500000\<rparr>)"
  by (simp add: default_job_name_def advanced_job_name_def py_round_def Let_def
        training_job_name_def strftime_def example_moment_def valid_datetime_def)

text \<open>
  C7, amended: the notebooks do not make every job name unique; all they embed is the
  current time to the second. With the same model name and instance type, two default
  job names, and two advanced job names, are equal exactly when the timestamps rounded
  to the second are equal; two training job names are equal exactly when the fields of
  the two local date-times agree down to the second. So distinct rounded timestamps give
  distinct names, and equal ones give equal names.
\<close>

theorem job_names_embed_rounded_timestamp:
  "(default_job_name model_name t1 = default_job_name model_name t2 \<longleftrightarrow>
      py_round t1 = py_round t2) \<and>
   (advanced_job_name model_name instance_type t1 = advanced_job_name model_name instance_type t2 \<longleftrightarrow>
      py_round t1 = py_round t2) \<and>
   (valid_datetime d1 \<and> valid_datetime d2 \<longrightarrow>
      (training_job_name d1 = training_job_name d2 \<longleftrightarrow> to_the_second d1 = to_the_second d2))"
proof (intro conjI impI)
  show "default_job_name model_name t1 = default_job_name model_name t2 \<longleftrightarrow>
      py_round t1 = py_round t2"
    by (auto simp: default_job_name_def dest: str_int_inj)
  show "advanced_job_name model_name instance_type t1 =
      advanced_job_name model_name instance_type t2 \<longleftrightarrow> py_round t1 = py_round t2"
    by (auto simp: advanced_job_name_def dest: str_int_inj)
next
  assume v: "valid_datetime d1 \<and> valid_datetime d2"
  show "training_job_name d1 = training_job_name d2 \<longleftrightarrow> to_the_second d1 = to_the_second d2"
  proof
    assume "training_job_name d1 = training_job_name d2"
    then have "strftime d1 = strftime d2" by (simp add: training_job_name_def)
    with v show "to_the_second d1 = to_the_second d2" by (blast intro: strftime_inj)
  next
    assume "to_the_second d1 = to_the_second d2"
    then show "training_job_name d1 = training_job_name d2"
      by (simp add: to_the_second_def training_job_name_def strftime_def)
  qed
qed

text \<open>Two submissions more than a second apart get distinct names of each kind.\<close>

theorem job_names_embed_rounded_timestamp_witness:
  "py_round (16900000002 / 10) \<noteq> py_round (16900000014 / 10) \<and>
   default_job_name ''resnet50'' (16900000002 / 10) \<noteq>
     default_job_name ''resnet50'' (16900000014 / 10) \<and>
   advanced_job_name ''resnet50'' ''ml.c5.xlarge'' (16900000002 / 10) \<noteq>
     advanced_job_name ''resnet50'' ''ml.c5.xlarge'' (16900000014 / 10) \<and>
   valid_datetime (example_moment 58) \<and> valid_datetime (example_moment 59) \<and>
   to_the_second (example_moment 58) \<noteq> to_the_second (example_moment 59) \<and>
   training_job_name (example_moment 58) \<noteq> training_job_name (example_moment 59)"
proof -
  have r: "py_round (16900000002 / 10) \<noteq> py_round (16900000014 / 10)"
    by (simp add: py_round_def Let_def)
  have v: "valid_datetime (example_moment 58) \<and> valid_datetime (example_moment 59)"
    by (simp add: valid_datetime_def example_moment_def)
  have s: "to_the_second (example_moment 58) \<noteq> to_the_second (example_moment 59)"
    by (simp add: to_the_second_def example_moment_def)
  from job_names_embed_rounded_timestamp [of "''resnet50''" "16900000002 / 10" "16900000014 / 10" "''ml.c5.xlarge''"
      "example_moment 58" "example_moment 59"] r v s
  show ?thesis by blast
qed

section \<open>Properties of the objective metric\<close>

lemma digit_char_class: "metric_class (digit_char n)"
  using digit_char_in [of n] by (auto simp: metric_class_def)

lemma digit_char_not_line_feed: "digit_char n \<noteq> line_feed"
  using digit_char_in [of n] by (auto simp: line_feed_def)

lemma str_nat_no_line_feed: "line_feed \<notin> set (str_nat n)"
  using str_nat_digits [of n] by (auto simp: line_feed_def)

lemma str_float_no_line_feed: "line_feed \<notin> set (str_float v)"
proof (cases v)
  case NaN
  then show ?thesis by (simp add: line_feed_def)
next
  case (Infinity s)
  then show ?thesis by (simp add: line_feed_def sign_text_def)
next
  case (Fixed s n ds)
  have "line_feed \<notin> set (map digit_char ds)"
    by (metis digit_char_not_line_feed imageE list.set_map)
  with Fixed show ?thesis
    using str_nat_no_line_feed [of n] by (auto simp: sign_text_def line_feed_def)
next
  case (Scientific s d ds e)
  have "line_feed \<notin> set (map digit_char ds)"
    by (metis digit_char_not_line_feed imageE list.set_map)
  with Scientific show ?thesis
    using str_nat_no_line_feed [of "nat \<bar>e\<bar>"] digit_char_not_line_feed [of d]
    by (auto simp: sign_text_def line_feed_def)
qed

lemma str_nat_head: "\<exists>c cs. str_nat n = c # cs \<and> metric_class c"
proof -
  obtain c cs where c: "str_nat n = c # cs"
    using str_nat_nonempty [of n] by (cases "str_nat n") auto
  then have "c \<in> set ''0123456789''" using str_nat_digits [of n] by auto
  then have "metric_class c" by (auto simp: metric_class_def)
  with c show ?thesis by blast
qed

lemma str_float_head:
  assumes "nonnegative_finite v"
  shows "\<exists>c cs. str_float v = c # cs \<and> metric_class c"
proof (cases v)
  case (Fixed s n ds)
  with assms have "\<not> s" by (simp add: nonnegative_finite_def)
  with Fixed str_nat_head [of n] show ?thesis by (auto simp: sign_text_def)
next
  case (Scientific s d ds e)
  with assms have "\<not> s" by (simp add: nonnegative_finite_def)
  with Scientific digit_char_class [of d] show ?thesis by (simp add: sign_text_def)
qed (use assms in \<open>simp_all add: nonnegative_finite_def\<close>)

lemma dot_star_eol_no_line_feed: "line_feed \<notin> set s \<Longrightarrow> dot_star_eol s"
  by (auto simp add: dot_star_eol_def dropWhile_eq_Nil_conv)

lemma match_at_literal:
  assumes "v = c # cs" "metric_class c" "line_feed \<notin> set v"
  shows "match_at (metric_literal @ v) = Some (takeWhile metric_class v)"
proof -
  have "line_feed \<notin> set (dropWhile metric_class v)"
    using assms(3) set_dropWhileD by fastforce
  then have "dot_star_eol (dropWhile metric_class v)" by (rule dot_star_eol_no_line_feed)
  moreover have "takeWhile metric_class v \<noteq> []" using assms(1,2) by simp
  ultimately show ?thesis by (simp add: match_at_def Let_def)
qed

lemma regex_search_at_start: "match_at s = Some g \<Longrightarrow> regex_search s = Some g"
  by (cases s) simp_all

lemma match_at_sound:
  assumes "match_at s = Some g"
  shows "\<exists>rest. s = metric_literal @ g @ rest \<and> g \<noteq> [] \<and> (\<forall>c\<in>set g. metric_class c) \<and>
           dot_star_eol rest"
proof -
  let ?r = "drop (length metric_literal) s"
  from assms have lit: "take (length metric_literal) s = metric_literal"
    and g: "g = takeWhile metric_class ?r" and ne: "g \<noteq> []"
    and eol: "dot_star_eol (dropWhile metric_class ?r)"
    by (auto simp: match_at_def Let_def split: if_splits)
  have "s = take (length metric_literal) s @ ?r" by simp
  also have "\<dots> = metric_literal @ g @ dropWhile metric_class ?r"
    by (simp only: lit g takeWhile_dropWhile_id)
  finally have "s = metric_literal @ g @ dropWhile metric_class ?r" .
  moreover have "\<forall>c\<in>set g. metric_class c" unfolding g by (auto dest: set_takeWhileD)
  ultimately show ?thesis using ne eol by blast
qed

lemma regex_search_sound: "regex_search line = Some g \<Longrightarrow> regex_matches line g"
proof (induction line)
  case Nil
  then have "match_at [] = Some g" by simp
  from match_at_sound [OF this] show ?case
    unfolding regex_matches_def by (metis append_Nil)
next
  case (Cons c cs)
  show ?case
  proof (cases "match_at (c # cs)")
    case None
    with Cons.prems have "regex_search cs = Some g" by simp
    then have "regex_matches cs g" by (rule Cons.IH)
    then obtain pre rest where "cs = pre @ metric_literal @ g @ rest" "g \<noteq> []"
      "\<forall>c\<in>set g. metric_class c" "dot_star_eol rest"
      unfolding regex_matches_def by blast
    then have "c # cs = (c # pre) @ metric_literal @ g @ rest" by simp
    with \<open>g \<noteq> []\<close> \<open>\<forall>c\<in>set g. metric_class c\<close> \<open>dot_star_eol rest\<close>
    show ?thesis unfolding regex_matches_def by blast
  next
    case (Some h)
    with Cons.prems have "h = g" by simp
    with Some match_at_sound [of "c # cs" g] show ?thesis
      unfolding regex_matches_def by (metis append_Nil)
  qed
qed

lemma dropWhile_dropWhile:
  "(\<And>c. P c \<Longrightarrow> Q c) \<Longrightarrow> dropWhile Q (dropWhile P xs) = dropWhile Q xs"
  by (induction xs) auto

lemma metric_class_not_line_feed: "metric_class c \<Longrightarrow> c \<noteq> line_feed"
  by (auto simp: metric_class_def line_feed_def)

lemma dot_star_eol_dropWhile: "dot_star_eol rest \<Longrightarrow> dot_star_eol (dropWhile metric_class rest)"
  unfolding dot_star_eol_def Let_def
  by (simp add: dropWhile_dropWhile metric_class_not_line_feed)

lemma match_at_complete:
  assumes "g \<noteq> []" "\<forall>c\<in>set g. metric_class c" "dot_star_eol rest"
  shows "match_at (metric_literal @ g @ rest) \<noteq> None"
proof -
  have tw: "takeWhile metric_class (g @ rest) = g @ takeWhile metric_class rest"
    using assms(2) by (simp add: takeWhile_append2)
  have dw: "dropWhile metric_class (g @ rest) = dropWhile metric_class rest"
    using assms(2) by (simp add: dropWhile_append2)
  show ?thesis
    using assms(1) dot_star_eol_dropWhile [OF assms(3)]
    by (simp add: match_at_def Let_def tw dw)
qed

lemma regex_search_append: "match_at s \<noteq> None \<Longrightarrow> regex_search (pre @ s) \<noteq> None"
proof (induction pre)
  case Nil
  then show ?case by (cases s) auto
next
  case (Cons c pre)
  then show ?case by (cases "match_at (c # pre @ s)") auto
qed

lemma regex_search_complete: "regex_matches line g \<Longrightarrow> regex_search line \<noteq> None"
  unfolding regex_matches_def
  using match_at_complete regex_search_append by blast

lemma second_line:
  "percentile_lines percentile ! 1 = metric_literal @ str_float (percentile 50)"
  by (simp add: percentile_lines_def metric_literal_def str_nat_eval digit_char_def)

lemma fixed_group:
  "takeWhile metric_class (str_float (Fixed False n ds)) = str_float (Fixed False n ds)"
proof -
  have "\<forall>c\<in>set (str_float (Fixed False n ds)). metric_class c"
    using str_nat_digits [of n] digit_char_class
    by (auto simp: sign_text_def metric_class_def)
  then show ?thesis by (simp only: takeWhile_eq_all_conv [THEN iffD2])
qed

text \<open>
  C6, as the claim states it, fails: when the test targets have a missing value the
  percentile is not-a-number, the script prints \<open>AE-at-50th-percentile: nan\<close>, and the
  metric regular expression does not match that line.
\<close>

theorem nan_line_is_not_matched:
  "percentile_lines nan_percentiles ! 1 = ''AE-at-50th-percentile: nan'' \<and>
   regex_search (percentile_lines nan_percentiles ! 1) = None"
proof -
  have l: "percentile_lines nan_percentiles ! 1 = ''AE-at-50th-percentile: nan''"
    unfolding second_line by (simp add: nan_percentiles_def metric_literal_def)
  have "regex_search ''AE-at-50th-percentile: nan'' = None"
    by code_simp
  with l show ?thesis by (simp only: simp_thms)
qed

text \<open>
  C6, amended: for every run whose 50th-percentile absolute error is a finite,
  non-negative number, the second line the script prints is \<open>AE-at-50th-percentile: \<close>
  followed by the text of the value, and the metric regular expression matches it. The
  group it captures is the longest prefix of that text made of digits and points: the
  whole text when the value prints in fixed notation.
\<close>

theorem median_AE_line_is_matched:
  assumes "nonnegative_finite (percentile 50)"
  shows "percentile_lines percentile ! 1 =
           ''AE-at-50th-percentile: '' @ str_float (percentile 50) \<and>
         (\<exists>g. regex_search (percentile_lines percentile ! 1) = Some g \<and> g \<noteq> [] \<and>
              g = takeWhile metric_class (str_float (percentile 50)) \<and>
              regex_matches (percentile_lines percentile ! 1) g \<and>
              (\<forall>n ds. percentile 50 = Fixed False n ds \<longrightarrow> g = str_float (percentile 50)))"
proof -
  let ?v = "str_float (percentile 50)"
  let ?line = "percentile_lines percentile ! 1"
  let ?g = "takeWhile metric_class ?v"
  have line: "?line = metric_literal @ ?v" by (rule second_line)
  obtain c cs where v: "?v = c # cs" "metric_class c"
    using str_float_head [OF assms] by blast
  have "match_at (metric_literal @ ?v) = Some ?g"
    using v str_float_no_line_feed by (rule match_at_literal)
  then have found: "regex_search ?line = Some ?g"
    unfolding line by (rule regex_search_at_start)
  then have "regex_matches ?line ?g" by (rule regex_search_sound)
  moreover have "?g \<noteq> []" using v by simp
  moreover have "\<forall>n ds. percentile 50 = Fixed False n ds \<longrightarrow> ?g = ?v"
  proof (intro allI impI)
    fix n ds assume "percentile 50 = Fixed False n ds"
    then show "?g = ?v" by (simp only: fixed_group)
  qed
  moreover have "?line = ''AE-at-50th-percentile: '' @ ?v"
    using line by (simp add: metric_literal_def)
  ultimately show ?thesis using found by blast
qed

text \<open>A run whose median absolute error is 0.35: the line matches and the group is the
  value.\<close>

theorem median_AE_line_is_matched_witness:
  "nonnegative_finite (example_percentiles 50) \<and>
   percentile_lines example_percentiles ! 1 = ''AE-at-50th-percentile: 0.35'' \<and>
   regex_search (percentile_lines example_percentiles ! 1) = Some ''0.35''"
proof -
  have h: "nonnegative_finite (example_percentiles 50)"
    by (simp add: example_percentiles_def nonnegative_finite_def)
  have v: "str_float (example_percentiles 50) = ''0.35''"
    by (simp add: example_percentiles_def sign_text_def str_nat_eval digit_char_def)
  have tw: "takeWhile metric_class ''0.35'' = ''0.35''"
    by (simp add: metric_class_def)
  from median_AE_line_is_matched [of example_percentiles, OF h] obtain g where
    l: "percentile_lines example_percentiles ! 1 =
          ''AE-at-50th-percentile: '' @ str_float (example_percentiles 50)"
    and f: "regex_search (percentile_lines example_percentiles ! 1) = Some g"
    and g: "g = takeWhile metric_class (str_float (example_percentiles 50))"
    by blast
  from g have "g = ''0.35''" by (simp only: v tw)
  with f have "regex_search (percentile_lines example_percentiles ! 1) = Some ''0.35''"
    by (simp only:)
  moreover from l have "percentile_lines example_percentiles ! 1 = ''AE-at-50th-percentile: 0.35''"
    by (simp only: v append.simps)
  ultimately show ?thesis using h by blast
qed

section \<open>Properties of the model file\<close>

text \<open>
  C9: after the training script has persisted the model under \<open>model_dir\<close>, \<open>model_fn\<close>
  of the same \<open>model_dir\<close> returns that model: both build the path with
  \<open>os.path.join(model_dir, "model.joblib")\<close>, and loading a path gives what was last
  dumped there.
\<close>

theorem model_fn_after_persist:
  "persist_model model (Some model_dir) fs = Inr fs' \<Longrightarrow> model_fn model_dir fs' = Inr model"
  by (auto simp: persist_model_def joblib_dump_def model_fn_def joblib_load_def split: if_splits)

text \<open>In a container with no file yet, persisting under \<open>/opt/ml/model\<close> writes
  \<open>/opt/ml/model/model.joblib\<close>, and \<open>model_fn\<close> reads the model back from there.\<close>

theorem model_fn_after_persist_witness:
  "persist_model ''forest'' (Some ''/opt/ml/model'') empty_container =
     Inr (empty_container\<lparr>files := [''/opt/ml/model/model.joblib'' \<mapsto> ''forest'']\<rparr>) \<and>
   model_fn ''/opt/ml/model''
     (empty_container\<lparr>files := [''/opt/ml/model/model.joblib'' \<mapsto> ''forest'']\<rparr>) = Inr ''forest''"
proof -
  have p: "persist_model ''forest'' (Some ''/opt/ml/model'') empty_container =
     Inr (empty_container\<lparr>files := [''/opt/ml/model/model.joblib'' \<mapsto> ''forest'']\<rparr>)"
    by (simp add: persist_model_def joblib_dump_def os_path_join_def empty_container_def)
  from model_fn_after_persist [OF p] p show ?thesis by blast
qed

end
